theory Spec2Isabelle
  imports Main "HOL-Library.Word"
begin

unbundle bit_operations_syntax

section \<open>The generic Merkle-Damgard hash engine of \<^verbatim>\<open>mdx_hash.h\<close>\<close>

subsection \<open>Data model\<close>

type_synonym byte = "8 word"

text \<open>\<^verbatim>\<open>enum class MD_Endian { Little, Big }\<close>\<close>

datatype MD_Endian = Little | Big

text \<open>
  Modelled from the spec: the macro \<^verbatim>\<open>BOTAN_ASSERT_NOMSG(expr)\<close> is not among the sources.
  Section 7 of the specification makes a violated precondition or internal invariant a
  fatal assertion failure that aborts the operation. The error carries the asserted
  expression.
\<close>

datatype error = Internal_Error string

text \<open>
  An operation either returns or throws; in both cases the memory it has written so far
  stays as it is, so both carry the state reached.
\<close>

datatype 's outcome = Returned 's | Thrown error 's

text \<open>
  The template parameter \<^verbatim>\<open>MD\<close> (concept \<^verbatim>\<open>md_hash_implementation\<close>): the five layout
  constants and the two static functions, over the digest type \<open>'d\<close> (\<^verbatim>\<open>MD::digest_type\<close>).
  Where the digest is serialized it is a contiguous container of unsigned words, a list
  of words of one width.

  Modelled from the spec: the concrete \<^verbatim>\<open>MD::init\<close> is not among the sources; "init(state)
  sets initial constants", so it is the constant that the digest is set to.
  \<^verbatim>\<open>MD::compress_n(digest, input, blocks)\<close> is a parameter of the development: it maps the
  digest, the bytes and the block count to the new digest.
\<close>

record 'd MD =
  init :: "'d"
  compress_n :: "'d \<Rightarrow> byte list \<Rightarrow> nat \<Rightarrow> 'd"
  bit_endianness :: MD_Endian
  byte_endianness :: MD_Endian
  block_bytes :: nat
  output_bytes :: nat
  ctr_bytes :: nat

text \<open>
  Modelled from the spec: \<^verbatim>\<open>is_power_of_2\<close> of \<^verbatim>\<open>bit_ops.h\<close> (not among the sources), "power-of-two".
\<close>

definition is_power_of_2 :: "nat \<Rightarrow> bool" where
  "is_power_of_2 n = (n \<noteq> 0 \<and> n AND (n - 1) = 0)"

text \<open>The numeric constraints of the concept \<^verbatim>\<open>md_hash_implementation\<close> (lines 36-37).\<close>

definition md_hash_implementation :: "'d MD \<Rightarrow> bool" where
  "md_hash_implementation md =
     (block_bytes md \<ge> 64 \<and> is_power_of_2 (block_bytes md) \<and> output_bytes md \<ge> 16 \<and>
      ctr_bytes md \<ge> 8 \<and> is_power_of_2 (ctr_bytes md) \<and> ctr_bytes md < block_bytes md)"

text \<open>
  Modelled from the spec: the class \<^verbatim>\<open>AlignmentBuffer\<close> of \<^verbatim>\<open>alignment_buffer.h\<close> is not among the
  sources. Following section 3 and 4.1 of the specification, the buffer is the sequence of
  bytes filled so far (positions \<open>[0, cursor)\<close>, order preserved); the cursor is its length
  and the capacity is the template argument \<^verbatim>\<open>MD::block_bytes\<close>, passed as \<open>bs\<close>.
\<close>

type_synonym AlignmentBuffer = "byte list"

text \<open>The members of \<^verbatim>\<open>MerkleDamgard_Hash\<close> (lines 124-127).\<close>

record 'd MerkleDamgard_Hash =
  m_digest :: "'d"
  m_count :: "64 word"
  m_buffer :: AlignmentBuffer

text \<open>One call \<^verbatim>\<open>MD::compress_n(m_digest, data, blocks)\<close>, as the capability sees it.\<close>

type_synonym compress_call = "byte list \<times> nat"

subsection \<open>Byte order (\<^verbatim>\<open>loadstor.h\<close>)\<close>

text \<open>
  Modelled from the spec: \<^verbatim>\<open>store_le\<close> of \<^verbatim>\<open>loadstor.h\<close> is not among the sources. "Serialized per
  \<open>byte_endianness\<close>": a word is written in \<open>sizeof(T)\<close> bytes, here least significant
  byte first.
\<close>

definition store_le :: "'a::len word \<Rightarrow> byte list" where
  "store_le w = map (\<lambda>i. ucast (drop_bit (8 * i) w)) [0..<LENGTH('a) div 8]"

text \<open>
  Modelled from the spec: \<^verbatim>\<open>store_be\<close> of \<^verbatim>\<open>loadstor.h\<close> is not among the sources. The bytes of
  the word, most significant byte first.
\<close>

definition store_be :: "'a::len word \<Rightarrow> byte list" where
  "store_be w = rev (store_le w)"

text \<open>Writing \<open>bytes\<close> through a span that starts at offset \<open>off\<close> of \<open>mem\<close>.\<close>

definition span_store :: "byte list \<Rightarrow> nat \<Rightarrow> byte list \<Rightarrow> byte list" where
  "span_store mem off bytes = take off mem @ bytes @ drop (off + length bytes) mem"

text \<open>
  Modelled from the spec: \<^verbatim>\<open>copy_out_vec_be\<close> of \<^verbatim>\<open>loadstor.h\<close> is not among the sources.
  "Serialize the first \<open>output_bytes\<close> of Digest State into output, using \<open>byte_endianness\<close>
  for each internal word."
\<close>

definition copy_out_vec_be :: "byte list \<Rightarrow> nat \<Rightarrow> 'a::len word list \<Rightarrow> byte list" where
  "copy_out_vec_be out out_bytes digest =
     span_store out 0 (take out_bytes (concat (map store_be digest)))"

text \<open>
  Modelled from the spec: \<^verbatim>\<open>copy_out_vec_le\<close> of \<^verbatim>\<open>loadstor.h\<close> is not among the sources; as
  above, with little-endian words.
\<close>

definition copy_out_vec_le :: "byte list \<Rightarrow> nat \<Rightarrow> 'a::len word list \<Rightarrow> byte list" where
  "copy_out_vec_le out out_bytes digest =
     span_store out 0 (take out_bytes (concat (map store_le digest)))"

subsection \<open>Alignment buffer (modelled from the spec, section 4.1)\<close>

text \<open>
  Modelled from the spec: \<^verbatim>\<open>handle_unaligned_data\<close>. "If the buffer already holds some bytes,
  copies as many bytes as needed from \<open>input_cursor\<close> to fill the buffer to one full block;
  advances \<open>input_cursor\<close>. Returns the completed block if filling succeeded, otherwise
  signals not yet full." A returned block leaves the buffer drained. The result is the
  optional block, the buffer and the rest of the input.
\<close>

definition handle_unaligned_data ::
  "nat \<Rightarrow> AlignmentBuffer \<Rightarrow> byte list \<Rightarrow> byte list option \<times> AlignmentBuffer \<times> byte list" where
  "handle_unaligned_data bs buf inp =
     (if buf = [] then (None, buf, inp)
      else
        let elements_to_consume = min (bs - length buf) (length inp);
            buf' = buf @ take elements_to_consume inp;
            inp' = drop elements_to_consume inp
        in if length buf' = bs then (Some buf', [], inp') else (None, buf', inp'))"

text \<open>Modelled from the spec: "true iff the buffer currently holds zero bytes".\<close>

definition in_alignment :: "AlignmentBuffer \<Rightarrow> bool" where
  "in_alignment buf = (length buf = 0)"

text \<open>
  Modelled from the spec: \<^verbatim>\<open>aligned_data_to_process\<close>. "When in alignment, returns the largest
  byte range within \<open>input_cursor\<close> whose length is a multiple of \<open>block_bytes\<close>, plus the
  count of whole blocks, and advances \<open>input_cursor\<close> past that range; any remainder shorter
  than one block is appended into the buffer instead." The remainder moves from the input
  into the buffer, so the slicer is left empty. The result is the range with its block
  count, the buffer and the rest of the input.
\<close>

definition aligned_data_to_process ::
  "nat \<Rightarrow> AlignmentBuffer \<Rightarrow> byte list \<Rightarrow> (byte list \<times> nat) \<times> AlignmentBuffer \<times> byte list" where
  "aligned_data_to_process bs buf inp =
     (let full_blocks = length inp div bs;
          aligned = full_blocks * bs
      in ((take aligned inp, full_blocks), buf @ drop aligned inp, []))"

text \<open>Modelled from the spec: "true iff the buffer is exactly full (cursor == block_bytes)".\<close>

definition ready_to_consume :: "nat \<Rightarrow> AlignmentBuffer \<Rightarrow> bool" where
  "ready_to_consume bs buf = (length buf = bs)"

text \<open>Modelled from the spec: "\<open>block_bytes - cursor\<close>; bytes still needed to complete the current block".\<close>

definition elements_until_alignment :: "nat \<Rightarrow> AlignmentBuffer \<Rightarrow> nat" where
  "elements_until_alignment bs buf = bs - length buf"

text \<open>Modelled from the spec: "pads the unfilled remainder of the buffer with zero bytes".\<close>

definition fill_up_with_zeros :: "nat \<Rightarrow> AlignmentBuffer \<Rightarrow> AlignmentBuffer" where
  "fill_up_with_zeros bs buf = buf @ replicate (elements_until_alignment bs buf) 0"

text \<open>
  Modelled from the spec: "returns a mutable view onto the last \<open>n\<close> bytes of the (now full)
  buffer". The view is given by the offset at which it starts.
\<close>

definition directly_modify_last :: "AlignmentBuffer \<Rightarrow> nat \<Rightarrow> nat" where
  "directly_modify_last buf n = length buf - n"

text \<open>Modelled from the spec: "returns the full block and resets the buffer to empty".\<close>

definition consume :: "AlignmentBuffer \<Rightarrow> byte list \<times> AlignmentBuffer" where
  "consume buf = (buf, [])"

text \<open>
  Modelled from the spec: \<^verbatim>\<open>AlignmentBuffer::append\<close>, "appends bytes to the buffer without
  exceeding capacity". A request that does not fit is a precondition violation (section 7).
\<close>

definition append_buffer :: "nat \<Rightarrow> AlignmentBuffer \<Rightarrow> byte list \<Rightarrow> error + AlignmentBuffer" where
  "append_buffer bs buf elements =
     (if length elements \<le> elements_until_alignment bs buf then Inr (buf @ elements)
      else Inl (Internal_Error ''elements.size() <= elements_until_alignment()''))"

text \<open>Modelled from the spec: \<^verbatim>\<open>AlignmentBuffer::clear\<close>, "resets cursor to zero".\<close>

definition clear_buffer :: "AlignmentBuffer \<Rightarrow> AlignmentBuffer" where
  "clear_buffer buf = []"

subsection \<open>The engine (\<^verbatim>\<open>MerkleDamgard_Hash\<close>, lines 39-128)\<close>

text \<open>\<^verbatim>\<open>clear()\<close>, lines 70-74.\<close>

definition clear :: "'d MD \<Rightarrow> 'd MerkleDamgard_Hash \<Rightarrow> 'd MerkleDamgard_Hash" where
  "clear md e = e\<lparr>m_digest := init md, m_buffer := clear_buffer (m_buffer e), m_count := 0\<rparr>"

text \<open>
  The constructor, line 42: \<^verbatim>\<open>clear()\<close> sets all three members, so the values they are
  default-initialised with do not show.
\<close>

definition new_MerkleDamgard_Hash :: "'d MD \<Rightarrow> 'd MerkleDamgard_Hash" where
  "new_MerkleDamgard_Hash md = clear md \<lparr>m_digest = init md, m_count = 0, m_buffer = []\<rparr>"

text \<open>
  One pass through the body of the loop of \<^verbatim>\<open>update\<close>, lines 48-57. The state is the engine,
  the calls of \<^verbatim>\<open>MD::compress_n\<close> made so far and the input not yet taken from the slicer.
\<close>

definition update_body ::
  "'d MD \<Rightarrow> 'd MerkleDamgard_Hash \<times> compress_call list \<times> byte list \<Rightarrow>
   'd MerkleDamgard_Hash \<times> compress_call list \<times> byte list" where
  "update_body md s =
     (case s of (e, calls, inp) \<Rightarrow>
        (case handle_unaligned_data (block_bytes md) (m_buffer e) inp of
           (one_block, buf1, in1) \<Rightarrow>
             let e1 = (case one_block of
                         Some blk \<Rightarrow> e\<lparr>m_buffer := buf1, m_digest := compress_n md (m_digest e) blk 1\<rparr>
                       | None \<Rightarrow> e\<lparr>m_buffer := buf1\<rparr>);
                 calls1 = (case one_block of Some blk \<Rightarrow> calls @ [(blk, 1)] | None \<Rightarrow> calls)
             in if in_alignment (m_buffer e1) then
                  (case aligned_data_to_process (block_bytes md) (m_buffer e1) in1 of
                     ((aligned_data, full_blocks), buf2, in2) \<Rightarrow>
                       if full_blocks > 0 then
                         (e1\<lparr>m_buffer := buf2,
                             m_digest := compress_n md (m_digest e1) aligned_data full_blocks\<rparr>,
                          calls1 @ [(aligned_data, full_blocks)], in2)
                       else (e1\<lparr>m_buffer := buf2\<rparr>, calls1, in2))
                else (e1, calls1, in1)))"

text \<open>
  \<^verbatim>\<open>while(!in.empty()) { ... }\<close>, line 47. Nothing in the loop itself bounds the number of
  passes, so not returning is the value \<open>None\<close>.
\<close>

partial_function (option) update_loop ::
  "'d MD \<Rightarrow> 'd MerkleDamgard_Hash \<times> compress_call list \<times> byte list \<Rightarrow>
   ('d MerkleDamgard_Hash \<times> compress_call list) option" where
  "update_loop md s =
     (case s of (e, calls, inp) \<Rightarrow>
        if inp = [] then Some (e, calls) else update_loop md (update_body md s))"

declare update_loop.simps [code]

text \<open>
  \<^verbatim>\<open>update(input)\<close>, lines 44-61: the engine after the call and the calls of
  \<^verbatim>\<open>MD::compress_n\<close> it made, in order. \<^verbatim>\<open>m_count\<close> is a \<^verbatim>\<open>uint64_t\<close>: the addition wraps.
\<close>

definition update ::
  "'d MD \<Rightarrow> 'd MerkleDamgard_Hash \<Rightarrow> byte list \<Rightarrow>
   ('d MerkleDamgard_Hash \<times> compress_call list) option" where
  "update md e input =
     (case update_loop md (e, [], input) of
        None \<Rightarrow> None
      | Some (e', calls) \<Rightarrow> Some (e'\<lparr>m_count := m_count e' + of_nat (length input)\<rparr>, calls))"

text \<open>
  The marker byte of \<^verbatim>\<open>append_padding_bit()\<close>, lines 79-85: \<^verbatim>\<open>final_byte\<close> in either branch of
  the \<^verbatim>\<open>if constexpr\<close>.
\<close>

definition final_byte :: "'d MD \<Rightarrow> byte" where
  "final_byte md = (if bit_endianness md = Big then 0x80 else 0x01)"

text \<open>\<^verbatim>\<open>append_padding_bit()\<close>, lines 77-86.\<close>

definition append_padding_bit ::
  "'d MD \<Rightarrow> 'd MerkleDamgard_Hash \<Rightarrow> 'd MerkleDamgard_Hash outcome" where
  "append_padding_bit md e =
     (if \<not> (\<not> ready_to_consume (block_bytes md) (m_buffer e)) then
        Thrown (Internal_Error ''!m_buffer.ready_to_consume()'') e
      else
        case append_buffer (block_bytes md) (m_buffer e) [final_byte md] of
          Inl err \<Rightarrow> Thrown err e
        | Inr buf \<Rightarrow> Returned (e\<lparr>m_buffer := buf\<rparr>))"

text \<open>
  The bytes stored through \<^verbatim>\<open>last_bytes\<close>, lines 103-107: the \<^verbatim>\<open>uint64_t bit_count\<close> in the
  byte order of the algorithm.
\<close>

definition store_bit_count :: "'d MD \<Rightarrow> 64 word \<Rightarrow> byte list" where
  "store_bit_count md bit_count =
     (if byte_endianness md = Big then store_be bit_count else store_le bit_count)"

text \<open>\<^verbatim>\<open>append_counter_and_finalize()\<close>, lines 88-111.\<close>

definition append_counter_and_finalize ::
  "'d MD \<Rightarrow> 'd MerkleDamgard_Hash \<Rightarrow> ('d MerkleDamgard_Hash \<times> compress_call list) outcome" where
  "append_counter_and_finalize md e =
     (let (e1, calls1) =
            (if elements_until_alignment (block_bytes md) (m_buffer e) < ctr_bytes md then
               (case consume (fill_up_with_zeros (block_bytes md) (m_buffer e)) of
                  (blk, buf) \<Rightarrow>
                    (e\<lparr>m_buffer := buf, m_digest := compress_n md (m_digest e) blk 1\<rparr>, [(blk, 1)]))
             else (e, []))
      in if \<not> (elements_until_alignment (block_bytes md) (m_buffer e1) \<ge> ctr_bytes md) then
           Thrown (Internal_Error ''m_buffer.elements_until_alignment() >= MD::ctr_bytes'') (e1, calls1)
         else
           let buf2 = fill_up_with_zeros (block_bytes md) (m_buffer e1);
               bit_count = m_count e1 * 8;
               last_bytes = directly_modify_last buf2 8;
               buf3 = span_store buf2 last_bytes (store_bit_count md bit_count)
           in case consume buf3 of
                (blk, buf4) \<Rightarrow>
                  Returned (e1\<lparr>m_buffer := buf4, m_digest := compress_n md (m_digest e1) blk 1\<rparr>,
                            calls1 @ [(blk, 1)]))"

text \<open>\<^verbatim>\<open>copy_output(output)\<close>, lines 113-121: the state is the caller's output buffer.\<close>

definition copy_output ::
  "'w::len word list MD \<Rightarrow> 'w word list MerkleDamgard_Hash \<Rightarrow> byte list \<Rightarrow> byte list outcome" where
  "copy_output md e output =
     (if \<not> (length output \<ge> output_bytes md) then
        Thrown (Internal_Error ''output.size() >= MD::output_bytes'') output
      else if byte_endianness md = Big then
        Returned (copy_out_vec_be output (output_bytes md) (m_digest e))
      else
        Returned (copy_out_vec_le output (output_bytes md) (m_digest e)))"

text \<open>
  \<^verbatim>\<open>final(output)\<close>, lines 63-68: the engine, the caller's output buffer and the calls of
  \<^verbatim>\<open>MD::compress_n\<close> made, at the return or at the throw.
\<close>

definition final ::
  "'w::len word list MD \<Rightarrow> 'w word list MerkleDamgard_Hash \<Rightarrow> byte list \<Rightarrow>
   ('w word list MerkleDamgard_Hash \<times> byte list \<times> compress_call list) outcome" where
  "final md e output =
     (case append_padding_bit md e of
        Thrown err e1 \<Rightarrow> Thrown err (e1, output, [])
      | Returned e1 \<Rightarrow>
          (case append_counter_and_finalize md e1 of
             Thrown err (e2, calls) \<Rightarrow> Thrown err (e2, output, calls)
           | Returned (e2, calls) \<Rightarrow>
               (case copy_output md e2 output of
                  Thrown err output' \<Rightarrow> Thrown err (e2, output', calls)
                | Returned output' \<Rightarrow> Returned (clear md e2, output', calls))))"

subsection \<open>Sequences of calls\<close>

text \<open>
  A caller's \<^verbatim>\<open>update\<close> calls, one per chunk in order: the engine after the last one and all
  calls of \<^verbatim>\<open>MD::compress_n\<close>, in order.
\<close>

fun update_chunks ::
  "'d MD \<Rightarrow> 'd MerkleDamgard_Hash \<Rightarrow> byte list list \<Rightarrow>
   ('d MerkleDamgard_Hash \<times> compress_call list) option" where
  "update_chunks md e [] = Some (e, [])"
| "update_chunks md e (c # cs) =
     (case update md e c of
        None \<Rightarrow> None
      | Some (e1, calls1) \<Rightarrow>
          (case update_chunks md e1 cs of
             None \<Rightarrow> None
           | Some (e2, calls2) \<Rightarrow> Some (e2, calls1 @ calls2)))"

text \<open>The state an outcome carries, whether it returned or threw.\<close>

fun state_of :: "'s outcome \<Rightarrow> 's" where
  "state_of (Returned s) = s"
| "state_of (Thrown err s) = s"

text \<open>The digest after a sequence of calls of \<^verbatim>\<open>MD::compress_n\<close>, made in order.\<close>

definition compress_calls :: "'d MD \<Rightarrow> 'd \<Rightarrow> compress_call list \<Rightarrow> 'd" where
  "compress_calls md d calls = foldl (\<lambda>dg (data, blocks). compress_n md dg data blocks) d calls"

text \<open>Every call passes as many bytes as the blocks it announces, and at least one block.\<close>

definition whole_blocks :: "'d MD \<Rightarrow> compress_call list \<Rightarrow> bool" where
  "whole_blocks md calls =
     list_all (\<lambda>(data, blocks). 0 < blocks \<and> length data = blocks * block_bytes md) calls"

text \<open>
  The contract of the compression capability that the engine relies on when it hands over
  several blocks at once: \<^verbatim>\<open>compress_n\<close> processes its blocks one after the other, so
  compressing two runs of whole blocks in turn is compressing their concatenation.
\<close>

definition compress_n_blockwise :: "'d MD \<Rightarrow> bool" where
  "compress_n_blockwise md =
     (\<forall>d a b n1 n2.
        0 < n1 \<and> 0 < n2 \<and> length a = n1 * block_bytes md \<and> length b = n2 * block_bytes md \<longrightarrow>
        compress_n md (compress_n md d a n1) b n2 = compress_n md d (a @ b) (n1 + n2))"

text \<open>
  Hashing a message handed over in chunks: one \<^verbatim>\<open>update\<close> per chunk, then \<^verbatim>\<open>final\<close>. The calls
  of \<^verbatim>\<open>MD::compress_n\<close> are those of the updates followed by those of \<^verbatim>\<open>final\<close>.
\<close>

definition hash_chunks ::
  "'w::len word list MD \<Rightarrow> 'w word list MerkleDamgard_Hash \<Rightarrow> byte list list \<Rightarrow> byte list \<Rightarrow>
   ('w word list MerkleDamgard_Hash \<times> byte list \<times> compress_call list) outcome option" where
  "hash_chunks md e chunks output =
     (case update_chunks md e chunks of
        None \<Rightarrow> None
      | Some (e1, calls1) \<Rightarrow>
          Some (case final md e1 output of
                  Returned (e2, output', calls2) \<Rightarrow> Returned (e2, output', calls1 @ calls2)
                | Thrown err (e2, output', calls2) \<Rightarrow> Thrown err (e2, output', calls1 @ calls2)))"

text \<open>
  The calls a caller can make on an engine, and the engine after a sequence of them, each
  of which returned. The result is \<open>None\<close> when a call does not return or throws.
\<close>

datatype engine_call = Update "byte list" | Final "byte list" | Clear

fun run ::
  "'w::len word list MD \<Rightarrow> 'w word list MerkleDamgard_Hash \<Rightarrow> engine_call list \<Rightarrow>
   'w word list MerkleDamgard_Hash option" where
  "run md e [] = Some e"
| "run md e (Update inp # cs) =
     (case update md e inp of None \<Rightarrow> None | Some (e', calls) \<Rightarrow> run md e' cs)"
| "run md e (Final out # cs) =
     (case final md e out of
        Returned (e', out', calls) \<Rightarrow> run md e' cs
      | Thrown err s \<Rightarrow> None)"
| "run md e (Clear # cs) = run md (clear md e) cs"

text \<open>
  The blocks that finalization is expected to hand to \<^verbatim>\<open>MD::compress_n\<close> for a buffer \<open>buf\<close> and
  a byte counter \<open>count\<close> (the two-phase padding of section 4.2 of the specification): the
  buffered bytes, the marker and zeros, with the 8-byte bit count at the end of the last
  block. It is compared with what \<^verbatim>\<open>final\<close> does.
\<close>

definition final_blocks :: "'d MD \<Rightarrow> byte list \<Rightarrow> 64 word \<Rightarrow> compress_call list" where
  "final_blocks md buf count =
     (let b = buf @ [final_byte md];
          field = store_bit_count md (count * 8)
      in if block_bytes md - length b < ctr_bytes md then
           [(b @ replicate (block_bytes md - length b) 0, 1),
            (replicate (block_bytes md - 8) 0 @ field, 1)]
         else [(b @ replicate (block_bytes md - length b - 8) 0 @ field, 1)])"

text \<open>
  The compression capability leaves a digest that holds at least \<open>output_bytes\<close> bytes
  (\<^verbatim>\<open>copy_output\<close> reads that many from \<^verbatim>\<open>m_digest\<close>).
\<close>

definition digest_holds_output :: "'w::len word list MD \<Rightarrow> bool" where
  "digest_holds_output md =
     (\<forall>d data n. 0 < n \<and> length data = n * block_bytes md \<longrightarrow>
        output_bytes md \<le> (LENGTH('w) div 8) * length (compress_n md d data n))"

subsection \<open>A small instance\<close>

text \<open>
  A compression capability over four 32-bit words with 64-byte blocks, on which the
  theorems below are instantiated. It mixes the bytes of its input into the digest one
  after the other.
\<close>

definition example_compress_n :: "32 word list \<Rightarrow> byte list \<Rightarrow> nat \<Rightarrow> 32 word list" where
  "example_compress_n d data blocks =
     foldl (\<lambda>dg x. map (\<lambda>w. 33 * w + ucast x) (take 4 (dg @ replicate 4 0))) d data"

definition example_md :: "32 word list MD" where
  "example_md =
     \<lparr>init = [0x67452301, 0xEFCDAB89, 0x98BADCFE, 0x10325476],
      compress_n = example_compress_n,
      bit_endianness = Big, byte_endianness = Little,
      block_bytes = 64, output_bytes = 16, ctr_bytes = 8\<rparr>"

text \<open>An engine that has absorbed the three bytes of "abc".\<close>

definition example_engine :: "32 word list MerkleDamgard_Hash" where
  "example_engine = \<lparr>m_digest = init example_md, m_count = 3, m_buffer = [0x61, 0x62, 0x63]\<rparr>"

text \<open>An engine that has absorbed 60 bytes, so that the marker byte leaves 3 bytes of the block.\<close>

definition example_engine_60 :: "32 word list MerkleDamgard_Hash" where
  "example_engine_60 =
     \<lparr>m_digest = init example_md, m_count = 60, m_buffer = replicate 60 0x61\<rparr>"

section \<open>Properties\<close>

subsection \<open>Auxiliary facts\<close>

lemma aligned_facts:
  fixes xs :: "'a list"
  assumes "0 < (bs::nat)"
  shows "length (take (length xs div bs * bs) xs) = length xs div bs * bs"
    and "length (drop (length xs div bs * bs) xs) < bs"
    and "length xs - length xs div bs * bs < bs"
proof -
  have "length xs div bs * bs \<le> length xs" by simp
  then show "length (take (length xs div bs * bs) xs) = length xs div bs * bs" by simp
  have "length xs - length xs div bs * bs = length xs mod bs"
    by (simp add: minus_div_mult_eq_mod)
  with assms show "length (drop (length xs div bs * bs) xs) < bs" 
    and "length xs - length xs div bs * bs < bs" by simp_all
qed

lemma update_body_absorbs:
  assumes inv: "length (m_buffer e) < block_bytes md" and ne: "inp \<noteq> []"
  shows "\<exists>e' new. update_body md (e, calls, inp) = (e', calls @ new, []) \<and>
           concat (map fst new) @ m_buffer e' = m_buffer e @ inp \<and> whole_blocks md new \<and>
           length (m_buffer e') < block_bytes md \<and>
           m_digest e' = compress_calls md (m_digest e) new \<and> m_count e' = m_count e"
proof -
  from inv have bs: "0 < block_bytes md" by simp
  consider (empty) "m_buffer e = []"
    | (partial) "m_buffer e \<noteq> []" "length (m_buffer e) + length inp < block_bytes md"
    | (fill) "m_buffer e \<noteq> []" "block_bytes md \<le> length (m_buffer e) + length inp"
    by linarith
  then show ?thesis
  proof cases
    case empty
    show ?thesis
    proof (cases "0 < length inp div block_bytes md")
      case True
      then show ?thesis
        using aligned_facts[OF bs, of inp] empty
        by (simp add: update_body_def handle_unaligned_data_def in_alignment_def
            aligned_data_to_process_def Let_def whole_blocks_def compress_calls_def)
    next
      case False
      then show ?thesis
        using aligned_facts[OF bs, of inp] empty
        by (simp add: update_body_def handle_unaligned_data_def in_alignment_def
            aligned_data_to_process_def Let_def whole_blocks_def compress_calls_def)
    qed
  next
    case partial
    then have "min (block_bytes md - length (m_buffer e)) (length inp) = length inp" by simp
    with partial ne show ?thesis
      by (simp add: update_body_def handle_unaligned_data_def in_alignment_def Let_def
          whole_blocks_def compress_calls_def)
  next
    case fill
    define n where "n = block_bytes md - length (m_buffer e)"
    define rest where "rest = drop n inp"
    from fill inv have n: "min (block_bytes md - length (m_buffer e)) (length inp) = n"
      and len: "length (m_buffer e) + n = block_bytes md" and nle: "n \<le> length inp"
      by (simp_all add: n_def)
    have split: "take n inp @ take (length rest div block_bytes md * block_bytes md) rest @
                 drop (length rest div block_bytes md * block_bytes md) rest = inp"
    proof -
      have "take n inp @ rest = inp" unfolding rest_def by (rule append_take_drop_id)
      then show ?thesis by (simp only: append_take_drop_id)
    qed
    have lrest: "length rest = length inp - n" by (simp add: rest_def)
    show ?thesis
    proof (cases "0 < length rest div block_bytes md")
      case True
      then show ?thesis
        using aligned_facts[OF bs, of rest] fill(1) n len nle split lrest
        by (simp add: update_body_def handle_unaligned_data_def in_alignment_def
            aligned_data_to_process_def Let_def whole_blocks_def compress_calls_def
            rest_def[symmetric])
    next
      case False
      then show ?thesis
        using aligned_facts[OF bs, of rest] fill(1) n len nle split lrest
        by (simp add: update_body_def handle_unaligned_data_def in_alignment_def
            aligned_data_to_process_def Let_def whole_blocks_def compress_calls_def
            rest_def[symmetric])
    qed
  qed
qed


lemma compress_calls_append:
  "compress_calls md d (xs @ ys) = compress_calls md (compress_calls md d xs) ys"
  by (simp add: compress_calls_def)

lemma whole_blocks_append:
  "whole_blocks md (xs @ ys) = (whole_blocks md xs \<and> whole_blocks md ys)"
  by (simp add: whole_blocks_def)

lemma update_absorbs:
  assumes inv: "length (m_buffer e) < block_bytes md"
  shows "\<exists>e' new. update md e inp = Some (e', new) \<and>
           concat (map fst new) @ m_buffer e' = m_buffer e @ inp \<and> whole_blocks md new \<and>
           length (m_buffer e') < block_bytes md \<and>
           m_digest e' = compress_calls md (m_digest e) new \<and>
           m_count e' = m_count e + of_nat (length inp)"
proof (cases "inp = []")
  case True
  with inv show ?thesis
    by (simp add: update_def update_loop.simps whole_blocks_def compress_calls_def)
next
  case False
  from update_body_absorbs[OF inv False, of "[]"] obtain e' new where
    b: "update_body md (e, [], inp) = (e', new, [])" and
    rest: "concat (map fst new) @ m_buffer e' = m_buffer e @ inp" "whole_blocks md new"
      "length (m_buffer e') < block_bytes md"
      "m_digest e' = compress_calls md (m_digest e) new" "m_count e' = m_count e"
    by auto
  from False b have "update_loop md (e, [], inp) = Some (e', new)"
    by (simp add: update_loop.simps[of md "(e, [], inp)"] update_loop.simps[of md "(e', new, [])"])
  with rest show ?thesis by (simp add: update_def)
qed

lemma update_chunks_absorbs:
  assumes inv: "length (m_buffer e) < block_bytes md"
  shows "\<exists>e' new. update_chunks md e chunks = Some (e', new) \<and>
           concat (map fst new) @ m_buffer e' = m_buffer e @ concat chunks \<and>
           whole_blocks md new \<and> length (m_buffer e') < block_bytes md \<and>
           m_digest e' = compress_calls md (m_digest e) new \<and>
           m_count e' = m_count e + of_nat (length (concat chunks))"
  using inv
proof (induction chunks arbitrary: e)
  case Nil
  then show ?case by (simp add: whole_blocks_def compress_calls_def)
next
  case (Cons c cs)
  from update_absorbs[OF Cons.prems, of c] obtain e1 n1 where
    u: "update md e c = Some (e1, n1)" and
    a1: "concat (map fst n1) @ m_buffer e1 = m_buffer e @ c" "whole_blocks md n1"
      "length (m_buffer e1) < block_bytes md"
      "m_digest e1 = compress_calls md (m_digest e) n1"
      "m_count e1 = m_count e + of_nat (length c)"
    by blast
  from Cons.IH[OF a1(3)] obtain e2 n2 where
    v: "update_chunks md e1 cs = Some (e2, n2)" and
    a2: "concat (map fst n2) @ m_buffer e2 = m_buffer e1 @ concat cs" "whole_blocks md n2"
      "length (m_buffer e2) < block_bytes md"
      "m_digest e2 = compress_calls md (m_digest e1) n2"
      "m_count e2 = m_count e1 + of_nat (length (concat cs))"
    by blast
  have "concat (map fst (n1 @ n2)) @ m_buffer e2 = m_buffer e @ concat (c # cs)"
    using a1(1) a2(1) by (metis append.assoc concat.simps(2) concat_append map_append)
  with u v a1 a2 show ?case
    by (simp add: whole_blocks_append compress_calls_append)
qed


lemma length_store_le: "length (store_le (w::'a::len word)) = LENGTH('a) div 8"
  by (simp add: store_le_def)

lemma length_store_be: "length (store_be (w::'a::len word)) = LENGTH('a) div 8"
  by (simp add: store_be_def length_store_le)

lemma length_store_bit_count: "length (store_bit_count md w) = 8"
  by (simp add: store_bit_count_def length_store_le length_store_be)

lemma append_padding_bit_returns:
  assumes "length (m_buffer e) < block_bytes md"
  shows "append_padding_bit md e = Returned (e\<lparr>m_buffer := m_buffer e @ [final_byte md]\<rparr>)"
  using assms
  by (simp add: append_padding_bit_def ready_to_consume_def append_buffer_def elements_until_alignment_def)

lemma finalize_two_blocks:
  assumes impl: "md_hash_implementation md"
    and len: "length (m_buffer e) \<le> block_bytes md"
    and short: "block_bytes md - length (m_buffer e) < ctr_bytes md"
  shows "append_counter_and_finalize md e =
         Returned (e\<lparr>m_buffer := [],
                     m_digest := compress_n md (compress_n md (m_digest e)
                        (m_buffer e @ replicate (block_bytes md - length (m_buffer e)) 0) 1)
                        (replicate (block_bytes md - 8) 0 @ store_bit_count md (m_count e * 8)) 1\<rparr>,
                   [(m_buffer e @ replicate (block_bytes md - length (m_buffer e)) 0, 1),
                    (replicate (block_bytes md - 8) 0 @ store_bit_count md (m_count e * 8), 1)])"
proof -
  from impl have c: "ctr_bytes md < block_bytes md" "8 \<le> block_bytes md"
    by (simp_all add: md_hash_implementation_def)
  have "span_store (replicate (block_bytes md) 0) (block_bytes md - 8) (store_bit_count md (m_count e * 8))
        = replicate (block_bytes md - 8) 0 @ store_bit_count md (m_count e * 8)"
    using c by (simp add: span_store_def length_store_bit_count min_def)
  with short c show ?thesis
    by (simp add: append_counter_and_finalize_def elements_until_alignment_def
        fill_up_with_zeros_def consume_def directly_modify_last_def Let_def)
qed

lemma finalize_one_block:
  assumes impl: "md_hash_implementation md"
    and len: "length (m_buffer e) \<le> block_bytes md"
    and room: "\<not> block_bytes md - length (m_buffer e) < ctr_bytes md"
  shows "append_counter_and_finalize md e =
         Returned (e\<lparr>m_buffer := [],
                     m_digest := compress_n md (m_digest e)
                        (m_buffer e @ replicate (block_bytes md - length (m_buffer e) - 8) 0 @
                         store_bit_count md (m_count e * 8)) 1\<rparr>,
                   [(m_buffer e @ replicate (block_bytes md - length (m_buffer e) - 8) 0 @
                     store_bit_count md (m_count e * 8), 1)])"
proof -
  from impl have c: "ctr_bytes md < block_bytes md" "8 \<le> ctr_bytes md"
    by (simp_all add: md_hash_implementation_def)
  with room have l8: "length (m_buffer e) + 8 \<le> block_bytes md" by simp
  have "span_store (m_buffer e @ replicate (block_bytes md - length (m_buffer e)) 0)
          (block_bytes md - 8) (store_bit_count md (m_count e * 8))
        = m_buffer e @ replicate (block_bytes md - length (m_buffer e) - 8) 0 @
          store_bit_count md (m_count e * 8)"
    using l8 by (simp add: span_store_def length_store_bit_count min_def add.commute)
  with room l8 show ?thesis
    by (simp add: append_counter_and_finalize_def elements_until_alignment_def
        fill_up_with_zeros_def consume_def directly_modify_last_def Let_def)
qed


lemma aligned_split_unique:
  fixes xs ys r r' :: "'a list"
  assumes bs: "0 < (bs::nat)" and eq: "xs @ r = ys @ r'"
    and dx: "bs dvd length xs" and dy: "bs dvd length ys"
    and lr: "length r < bs" and lr': "length r' < bs"
  shows "xs = ys \<and> r = r'"
proof -
  from dx dy obtain a b where a: "length xs = bs * a" and b: "length ys = bs * b"
    by (auto simp: dvd_def)
  from eq have "length xs + length r = length ys + length r'"
    by (metis length_append)
  with a b have l: "bs * a + length r = bs * b + length r'" by simp
  have "(bs * a + length r) div bs = a" "(bs * b + length r') div bs = b"
    using bs lr lr' by simp_all
  with l have "a = b" by metis
  with a b have "length xs = length ys" by simp
  with eq show ?thesis by simp
qed

lemma whole_blocks_length:
  "whole_blocks md calls \<Longrightarrow>
   length (concat (map fst calls)) = sum_list (map snd calls) * block_bytes md"
  by (induction calls) (auto simp: whole_blocks_def algebra_simps)

lemma whole_blocks_dvd:
  "whole_blocks md calls \<Longrightarrow> block_bytes md dvd length (concat (map fst calls))"
  by (simp add: whole_blocks_length)

lemma whole_blocks_sum_pos:
  "whole_blocks md calls \<Longrightarrow> calls \<noteq> [] \<Longrightarrow> 0 < sum_list (map snd calls)"
  by (cases calls) (auto simp: whole_blocks_def)

lemma compress_calls_blockwise:
  assumes bw: "compress_n_blockwise md"
  shows "whole_blocks md calls \<Longrightarrow>
         compress_calls md d calls =
           (if calls = [] then d
            else compress_n md d (concat (map fst calls)) (sum_list (map snd calls)))"
proof (induction calls rule: rev_induct)
  case Nil
  then show ?case by (simp add: compress_calls_def)
next
  case (snoc c calls)
  obtain a n where c: "c = (a, n)" by (cases c)
  from snoc.prems c have wb: "whole_blocks md calls" and n: "0 < n" "length a = n * block_bytes md"
    by (simp_all add: whole_blocks_def)
  show ?case
  proof (cases "calls = []")
    case True
    with c show ?thesis by (simp add: compress_calls_def)
  next
    case False
    from snoc.IH[OF wb] False
    have ih: "compress_calls md d calls =
                compress_n md d (concat (map fst calls)) (sum_list (map snd calls))"
      by simp
    from bw n whole_blocks_sum_pos[OF wb False] whole_blocks_length[OF wb]
    have "compress_n md (compress_n md d (concat (map fst calls)) (sum_list (map snd calls))) a n
          = compress_n md d (concat (map fst calls) @ a) (sum_list (map snd calls) + n)"
      unfolding compress_n_blockwise_def by blast
    with ih c show ?thesis by (simp add: compress_calls_append compress_calls_def)
  qed
qed

lemma compress_calls_data:
  assumes bw: "compress_n_blockwise md" and bs: "0 < block_bytes md"
    and wa: "whole_blocks md ca" and wb: "whole_blocks md cb"
    and eq: "concat (map fst ca) = concat (map fst cb)"
  shows "compress_calls md d ca = compress_calls md d cb"
proof -
  from whole_blocks_length[OF wa] whole_blocks_length[OF wb] eq bs
  have s: "sum_list (map snd ca) = sum_list (map snd cb)" by simp
  have e: "ca = [] \<longleftrightarrow> cb = []"
  proof
    assume "ca = []"
    with s have "sum_list (map snd cb) = 0" by simp
    with whole_blocks_sum_pos[OF wb] show "cb = []" by (cases "cb = []") simp_all
  next
    assume "cb = []"
    with s have "sum_list (map snd ca) = 0" by simp
    with whole_blocks_sum_pos[OF wa] show "ca = []" by (cases "ca = []") simp_all
  qed
  show ?thesis
    using compress_calls_blockwise[OF bw wa, of d] compress_calls_blockwise[OF bw wb, of d] s e eq
    by simp
qed

lemma example_md_impl: "md_hash_implementation example_md"
  by (simp add: md_hash_implementation_def example_md_def is_power_of_2_def)

lemma example_md_blockwise: "compress_n_blockwise example_md"
  by (simp add: compress_n_blockwise_def example_md_def example_compress_n_def)

lemma example_compress_n_length:
  "data \<noteq> [] \<Longrightarrow> length (example_compress_n d data n) = 4"
  by (induction data rule: rev_induct) (simp_all add: example_compress_n_def)

lemma example_md_digest: "digest_holds_output example_md"
  unfolding digest_holds_output_def
proof (intro allI impI)
  fix d :: "32 word list" and data :: "byte list" and n :: nat
  assume "0 < n \<and> length data = n * block_bytes example_md"
  then have "data \<noteq> []" by (auto simp: example_md_def)
  from example_compress_n_length[OF this]
  show "output_bytes example_md \<le> LENGTH(32) div 8 * length (compress_n example_md d data n)"
    by (simp add: example_md_def)
qed

lemma finalize_returns:
  assumes impl: "md_hash_implementation md"
    and len: "length (m_buffer e) < block_bytes md"
  shows "append_counter_and_finalize md (e\<lparr>m_buffer := m_buffer e @ [final_byte md]\<rparr>) =
         Returned (e\<lparr>m_buffer := [],
                     m_digest := compress_calls md (m_digest e)
                                   (final_blocks md (m_buffer e) (m_count e))\<rparr>,
                   final_blocks md (m_buffer e) (m_count e))"
proof (cases "block_bytes md - length (m_buffer e @ [final_byte md]) < ctr_bytes md")
  case True
  with finalize_two_blocks[OF impl, of "e\<lparr>m_buffer := m_buffer e @ [final_byte md]\<rparr>"] len
  show ?thesis by (simp add: final_blocks_def compress_calls_def)
next
  case False
  with finalize_one_block[OF impl, of "e\<lparr>m_buffer := m_buffer e @ [final_byte md]\<rparr>"] len
  show ?thesis by (simp add: final_blocks_def compress_calls_def)
qed

lemma final_run:
  assumes impl: "md_hash_implementation md"
    and len: "length (m_buffer e) < block_bytes md"
  shows "final md e out =
         (case copy_output md
                 (e\<lparr>m_buffer := [],
                    m_digest := compress_calls md (m_digest e)
                                  (final_blocks md (m_buffer e) (m_count e))\<rparr>) out of
            Thrown err out' \<Rightarrow>
              Thrown err (e\<lparr>m_buffer := [],
                             m_digest := compress_calls md (m_digest e)
                                           (final_blocks md (m_buffer e) (m_count e))\<rparr>,
                          out', final_blocks md (m_buffer e) (m_count e))
          | Returned out' \<Rightarrow>
              Returned (new_MerkleDamgard_Hash md, out', final_blocks md (m_buffer e) (m_count e)))"
  by (simp add: final_def append_padding_bit_returns[OF len] finalize_returns[OF impl len]
      clear_def new_MerkleDamgard_Hash_def clear_buffer_def split: outcome.splits)

lemma take_bit_nat_split:
  "take_bit (m + k) (a::nat) = take_bit m a + 2 ^ m * take_bit k (drop_bit m a)"
  by (simp add: take_bit_eq_mod drop_bit_eq_div power_add mod_mult2_eq)

lemma horner_store_le_prefix:
  "horner_sum unat 256 (map (\<lambda>i. ucast (drop_bit (8 * i) w) :: byte) [0..<n])
     = take_bit (8 * n) (unat (w::'a::len word))"
proof (induction n)
  case 0
  then show ?case by simp
next
  case (Suc n)
  have b: "unat (ucast (drop_bit (8 * n) w) :: byte) = take_bit 8 (drop_bit (8 * n) (unat w))"
    by (simp add: unsigned_ucast_eq unat_drop_bit_eq)
  have "8 * Suc n = 8 * n + 8" by simp
  then have "take_bit (8 * Suc n) (unat w)
          = take_bit (8 * n) (unat w) + 2 ^ (8 * n) * take_bit 8 (drop_bit (8 * n) (unat w))"
    by (simp only: take_bit_nat_split)
  moreover have "(256::nat) ^ n = 2 ^ (8 * n)"
    by (simp add: power_mult)
  ultimately show ?case
    using Suc b by (simp add: horner_sum_append)
qed

lemma horner_store_le: "horner_sum unat 256 (store_le (w::64 word)) = unat w"
proof -
  have "take_bit 64 (unat w) = unat w"
    using unsigned_less[of w] by (simp add: take_bit_nat_eq_self_iff)
  with horner_store_le_prefix[of w 8] show ?thesis
    by (simp add: store_le_def)
qed

lemma horner_store_be: "horner_sum unat 256 (rev (store_be (w::64 word))) = unat w"
  by (simp add: store_be_def horner_store_le)

lemma final_calls:
  assumes impl: "md_hash_implementation md"
    and len: "length (m_buffer e) < block_bytes md"
  shows "snd (snd (state_of (final md e out))) = final_blocks md (m_buffer e) (m_count e)"
  by (simp add: final_run[OF impl len] split: outcome.splits)

lemma final_blocks_data:
  assumes impl: "md_hash_implementation md"
    and len: "length buf < block_bytes md"
  shows "\<exists>k. concat (map fst (final_blocks md buf count)) =
           buf @ final_byte md # replicate k 0 @ store_bit_count md (count * 8)"
proof (cases "block_bytes md - length (buf @ [final_byte md]) < ctr_bytes md")
  case True
  then have "concat (map fst (final_blocks md buf count)) =
           buf @ final_byte md # replicate (block_bytes md - length (buf @ [final_byte md])
             + (block_bytes md - 8)) 0 @ store_bit_count md (count * 8)"
    by (simp add: final_blocks_def replicate_add)
  then show ?thesis by blast
next
  case False
  then have "concat (map fst (final_blocks md buf count)) =
           buf @ final_byte md # replicate (block_bytes md - length (buf @ [final_byte md]) - 8) 0
             @ store_bit_count md (count * 8)"
    by (simp add: final_blocks_def)
  then show ?thesis by blast
qed

lemma final_blocks_whole:
  assumes impl: "md_hash_implementation md"
    and len: "length buf < block_bytes md"
  shows "whole_blocks md (final_blocks md buf count)"
proof -
  from impl have c: "ctr_bytes md < block_bytes md" "8 \<le> ctr_bytes md"
    by (simp_all add: md_hash_implementation_def)
  with len show ?thesis
    by (auto simp: final_blocks_def whole_blocks_def length_store_bit_count Let_def)
qed

lemma new_buffer: "length (m_buffer (new_MerkleDamgard_Hash md)) < block_bytes md"
  if "md_hash_implementation md"
  using that
  by (simp add: new_MerkleDamgard_Hash_def clear_def clear_buffer_def md_hash_implementation_def)

lemma run_buffer:
  assumes impl: "md_hash_implementation md"
  shows "length (m_buffer e0) < block_bytes md \<Longrightarrow> run md e0 cs = Some e \<Longrightarrow>
         length (m_buffer e) < block_bytes md"
proof (induction cs arbitrary: e0)
  case Nil
  then show ?case by simp
next
  case (Cons c cs)
  show ?case
  proof (cases c)
    case (Update inp)
    from update_absorbs[OF Cons.prems(1), of inp] obtain e1 new where
      u: "update md e0 inp = Some (e1, new)" "length (m_buffer e1) < block_bytes md"
      by blast
    with Cons.prems(2) Update have "run md e1 cs = Some e" by simp
    from Cons.IH[OF u(2) this] show ?thesis .
  next
    case (Final out)
    from Cons.prems(2) Final final_run[OF impl Cons.prems(1), of out]
    have r: "run md (new_MerkleDamgard_Hash md) cs = Some e"
      by (auto split: outcome.splits)
    from Cons.IH[OF new_buffer[OF impl] r] show ?thesis .
  next
    case Clear
    have "clear md e0 = new_MerkleDamgard_Hash md"
      by (simp add: new_MerkleDamgard_Hash_def clear_def clear_buffer_def)
    with Cons.prems(2) Clear have r: "run md (new_MerkleDamgard_Hash md) cs = Some e" by simp
    from Cons.IH[OF new_buffer[OF impl] r] show ?thesis .
  qed
qed

lemma update_chunks_same_state:
  assumes impl: "md_hash_implementation md" and bw: "compress_n_blockwise md"
    and len: "length (m_buffer e) < block_bytes md"
  shows "\<exists>e' ca cb. update_chunks md e chunks = Some (e', ca) \<and>
                    update md e (concat chunks) = Some (e', cb) \<and>
                    concat (map fst ca) = concat (map fst cb)"
proof -
  from len have bs: "0 < block_bytes md" by simp
  from update_chunks_absorbs[OF len, of chunks] obtain ea ca where
    a: "update_chunks md e chunks = Some (ea, ca)"
      "concat (map fst ca) @ m_buffer ea = m_buffer e @ concat chunks" "whole_blocks md ca"
      "length (m_buffer ea) < block_bytes md"
      "m_digest ea = compress_calls md (m_digest e) ca"
      "m_count ea = m_count e + of_nat (length (concat chunks))"
    by blast
  from update_absorbs[OF len, of "concat chunks"] obtain eb cb where
    b: "update md e (concat chunks) = Some (eb, cb)"
      "concat (map fst cb) @ m_buffer eb = m_buffer e @ concat chunks" "whole_blocks md cb"
      "length (m_buffer eb) < block_bytes md"
      "m_digest eb = compress_calls md (m_digest e) cb"
      "m_count eb = m_count e + of_nat (length (concat chunks))"
    by blast
  from a(2) b(2) have "concat (map fst ca) @ m_buffer ea = concat (map fst cb) @ m_buffer eb"
    by simp
  from aligned_split_unique[OF bs this whole_blocks_dvd[OF a(3)] whole_blocks_dvd[OF b(3)] a(4) b(4)]
  have d: "concat (map fst ca) = concat (map fst cb)" and buf: "m_buffer ea = m_buffer eb"
    by simp_all
  from compress_calls_data[OF bw bs a(3) b(3) d] a(5) b(5)
  have "m_digest ea = m_digest eb" by simp
  with buf a(6) b(6) have "ea = eb" by simp
  with a(1) b(1) d show ?thesis by blast
qed

lemma final_returns:
  assumes impl: "md_hash_implementation md"
    and len: "length (m_buffer e) < block_bytes md"
    and out: "output_bytes md \<le> length out"
  shows "\<exists>out'. final md e out =
           Returned (new_MerkleDamgard_Hash md, out', final_blocks md (m_buffer e) (m_count e))"
  using out by (simp add: final_run[OF impl len] copy_output_def)

lemma hash_chunks_returns:
  assumes impl: "md_hash_implementation md"
    and len: "length (m_buffer e) < block_bytes md"
    and out: "output_bytes md \<le> length out"
  shows "\<exists>e1 cu out'. update_chunks md e chunks = Some (e1, cu) \<and>
           concat (map fst cu) @ m_buffer e1 = m_buffer e @ concat chunks \<and>
           whole_blocks md cu \<and> length (m_buffer e1) < block_bytes md \<and>
           m_count e1 = m_count e + of_nat (length (concat chunks)) \<and>
           hash_chunks md e chunks out =
             Some (Returned (new_MerkleDamgard_Hash md, out',
                             cu @ final_blocks md (m_buffer e1) (m_count e1)))"
proof -
  from update_chunks_absorbs[OF len, of chunks] obtain e1 cu where
    a: "update_chunks md e chunks = Some (e1, cu)"
      "concat (map fst cu) @ m_buffer e1 = m_buffer e @ concat chunks" "whole_blocks md cu"
      "length (m_buffer e1) < block_bytes md"
      "m_count e1 = m_count e + of_nat (length (concat chunks))"
    by blast
  from final_returns[OF impl a(4) out] obtain out' where
    "final md e1 out =
       Returned (new_MerkleDamgard_Hash md, out', final_blocks md (m_buffer e1) (m_count e1))"
    by blast
  with a show ?thesis by (simp add: hash_chunks_def)
qed

lemma length_concat_store:
  "length (concat (map store_le (dg::'a::len word list))) = (LENGTH('a) div 8) * length dg"
  "length (concat (map store_be dg)) = (LENGTH('a) div 8) * length dg"
  by (induction dg) (simp_all add: length_store_le length_store_be)

lemma final_blocks_digest:
  fixes md :: "'w::len word list MD"
  assumes impl: "md_hash_implementation md"
    and len: "length buf < block_bytes md"
    and dho: "digest_holds_output md"
  shows "output_bytes md \<le>
           (LENGTH('w) div 8) * length (compress_calls md d (final_blocks md buf count))"
proof -
  from impl have c: "ctr_bytes md < block_bytes md" "8 \<le> ctr_bytes md"
    by (simp_all add: md_hash_implementation_def)
  have one: "output_bytes md \<le> (LENGTH('w) div 8) * length (compress_n md d' blk 1)"
    if "length blk = block_bytes md" for d' blk
    using dho that unfolding digest_holds_output_def by simp
  show ?thesis
  proof (cases "block_bytes md - length (buf @ [final_byte md]) < ctr_bytes md")
    case True
    have "length (replicate (block_bytes md - 8) 0 @ store_bit_count md (count * 8))
            = block_bytes md"
      using c by (simp add: length_store_bit_count)
    from one[OF this] True show ?thesis
      by (simp add: final_blocks_def compress_calls_def)
  next
    case False
    with c len have "length ((buf @ [final_byte md]) @
              replicate (block_bytes md - length (buf @ [final_byte md]) - 8) 0 @
              store_bit_count md (count * 8)) = block_bytes md"
      by (simp add: length_store_bit_count)
    from one[OF this] False show ?thesis
      by (simp add: final_blocks_def compress_calls_def)
  qed
qed

lemma last_final_blocks:
  assumes impl: "md_hash_implementation md"
    and len: "length buf < block_bytes md"
  shows "\<exists>pre. last (final_blocks md buf count) = (pre @ store_bit_count md (count * 8), 1) \<and>
           length pre = block_bytes md - 8 \<and> 8 \<le> block_bytes md"
proof -
  from impl have c: "ctr_bytes md < block_bytes md" "8 \<le> ctr_bytes md"
    by (simp_all add: md_hash_implementation_def)
  show ?thesis
  proof (cases "block_bytes md - length (buf @ [final_byte md]) < ctr_bytes md")
    case True
    with c show ?thesis by (simp add: final_blocks_def)
  next
    case False
    with c len have
      "last (final_blocks md buf count) =
         ((buf @ final_byte md # replicate (block_bytes md - length (buf @ [final_byte md]) - 8) 0)
            @ store_bit_count md (count * 8), 1)"
      "length (buf @ final_byte md # replicate (block_bytes md - length (buf @ [final_byte md]) - 8) 0)
         = block_bytes md - 8"
      by (simp_all add: final_blocks_def)
    moreover from c have "8 \<le> block_bytes md" by simp
    ultimately show ?thesis by blast
  qed
qed

lemma final_blocks_nonempty: "final_blocks md buf count \<noteq> []"
  by (simp add: final_blocks_def Let_def)

lemma horner_store_bit_count:
  "horner_sum unat 256
     (if byte_endianness md = Big then rev (store_bit_count md w) else store_bit_count md w)
   = unat w"
  by (simp add: store_bit_count_def horner_store_le horner_store_be)

lemma example_engine_buffer: "length (m_buffer example_engine) < block_bytes example_md"
  by (simp add: example_engine_def example_md_def)

lemma example_update:
  "update example_md (new_MerkleDamgard_Hash example_md) [0x61, 0x62, 0x63] = Some (example_engine, [])"
  by (simp add: update_def update_loop.simps update_body_def handle_unaligned_data_def
      in_alignment_def aligned_data_to_process_def new_MerkleDamgard_Hash_def clear_def
      clear_buffer_def example_engine_def example_md_def Let_def)

lemma example_run:
  "run example_md (new_MerkleDamgard_Hash example_md) [Update [0x61, 0x62, 0x63]] =
     Some example_engine"
  by (simp add: example_update)

lemma example_new_buffer:
  "length (m_buffer (new_MerkleDamgard_Hash example_md)) < block_bytes example_md"
  by (rule new_buffer[OF example_md_impl])

lemma example_output: "output_bytes example_md \<le> length (replicate 16 (0::byte))"
  by (simp add: example_md_def)

lemma example_update_60:
  "update example_md (new_MerkleDamgard_Hash example_md) (replicate 60 0x61) =
     Some (example_engine_60, [])"
  by (simp add: update_def update_loop.simps update_body_def handle_unaligned_data_def
      in_alignment_def aligned_data_to_process_def new_MerkleDamgard_Hash_def clear_def
      clear_buffer_def example_engine_60_def example_md_def Let_def)

lemma example_engine_60_buffer: "length (m_buffer example_engine_60) < block_bytes example_md"
  by (simp add: example_engine_60_def example_md_def)

lemma final_returned_state:
  assumes "final md e out = Returned (e', out', calls)"
  shows "e' = new_MerkleDamgard_Hash md"
  using assms
  by (auto simp: final_def new_MerkleDamgard_Hash_def clear_def clear_buffer_def
      split: outcome.splits prod.splits)

subsection \<open>The claims\<close>

text \<open>
  C1 (chunk-boundary independence). For a compression capability that processes its blocks
  one after the other, hashing the chunks of any partition of a message, one \<^verbatim>\<open>update\<close> per
  chunk, and hashing the whole message in one \<^verbatim>\<open>update\<close> both return, with the same digest
  in the output buffer and the same engine state; the bytes handed to \<^verbatim>\<open>MD::compress_n\<close>,
  concatenated, are the same in both. The engine starts in any state whose buffer is not
  full, a fresh one in particular.
\<close>

theorem chunk_boundary_independence:
  assumes "md_hash_implementation md" and "compress_n_blockwise md"
    and "length (m_buffer e) < block_bytes md" and "output_bytes md \<le> length out"
  shows "\<exists>e' digest ca cb.
           hash_chunks md e chunks out = Some (Returned (e', digest, ca)) \<and>
           hash_chunks md e [concat chunks] out = Some (Returned (e', digest, cb)) \<and>
           concat (map fst ca) = concat (map fst cb)"
proof -
  from update_chunks_same_state[OF assms(1-3), of chunks] obtain e1 ca cb where
    u: "update_chunks md e chunks = Some (e1, ca)" "update md e (concat chunks) = Some (e1, cb)"
      "concat (map fst ca) = concat (map fst cb)"
    by blast
  from update_chunks_absorbs[OF assms(3), of chunks] u(1)
  have "length (m_buffer e1) < block_bytes md" by auto
  from final_returns[OF assms(1) this assms(4)] obtain out' where
    "final md e1 out =
       Returned (new_MerkleDamgard_Hash md, out', final_blocks md (m_buffer e1) (m_count e1))"
    by blast
  with u show ?thesis by (simp add: hash_chunks_def)
qed

theorem chunk_boundary_independence_witness:
  "md_hash_implementation example_md \<and> compress_n_blockwise example_md \<and>
   length (m_buffer (new_MerkleDamgard_Hash example_md)) < block_bytes example_md \<and>
   output_bytes example_md \<le> length (replicate 16 (0::byte)) \<and>
   (\<exists>e' digest ca cb.
      hash_chunks example_md (new_MerkleDamgard_Hash example_md)
        [replicate 70 0x61, replicate 60 0x62] (replicate 16 0)
        = Some (Returned (e', digest, ca)) \<and>
      hash_chunks example_md (new_MerkleDamgard_Hash example_md)
        [concat [replicate 70 0x61, replicate 60 0x62]] (replicate 16 0)
        = Some (Returned (e', digest, cb)) \<and>
      concat (map fst ca) = concat (map fst cb)) \<and>
   hash_chunks example_md (new_MerkleDamgard_Hash example_md)
     [replicate 70 0x61, replicate 60 0x62] (replicate 16 0)
     = Some (Returned (new_MerkleDamgard_Hash example_md,
         [243, 207, 47, 127, 123, 24, 185, 249, 240, 193, 89, 52, 104, 121, 208, 185],
         [(replicate 64 0x61, 1),
          (replicate 6 0x61 @ replicate 58 0x62, 1),
          ([0x62, 0x62, 0x80] @ replicate 53 0 @ [0x10, 0x04, 0, 0, 0, 0, 0, 0], 1)])) \<and>
   hash_chunks example_md (new_MerkleDamgard_Hash example_md)
     [concat [replicate 70 0x61, replicate 60 0x62]] (replicate 16 0)
     = Some (Returned (new_MerkleDamgard_Hash example_md,
         [243, 207, 47, 127, 123, 24, 185, 249, 240, 193, 89, 52, 104, 121, 208, 185],
         [(replicate 70 0x61 @ replicate 58 0x62, 2),
          ([0x62, 0x62, 0x80] @ replicate 53 0 @ [0x10, 0x04, 0, 0, 0, 0, 0, 0], 1)]))"
proof -
  have a: "hash_chunks example_md (new_MerkleDamgard_Hash example_md)
     [replicate 70 0x61, replicate 60 0x62] (replicate 16 0)
     = Some (Returned (new_MerkleDamgard_Hash example_md,
         [243, 207, 47, 127, 123, 24, 185, 249, 240, 193, 89, 52, 104, 121, 208, 185],
         [(replicate 64 0x61, 1),
          (replicate 6 0x61 @ replicate 58 0x62, 1),
          ([0x62, 0x62, 0x80] @ replicate 53 0 @ [0x10, 0x04, 0, 0, 0, 0, 0, 0], 1)]))"
    by code_simp
  have b: "hash_chunks example_md (new_MerkleDamgard_Hash example_md)
     [concat [replicate 70 0x61, replicate 60 0x62]] (replicate 16 0)
     = Some (Returned (new_MerkleDamgard_Hash example_md,
         [243, 207, 47, 127, 123, 24, 185, 249, 240, 193, 89, 52, 104, 121, 208, 185],
         [(replicate 70 0x61 @ replicate 58 0x62, 2),
          ([0x62, 0x62, 0x80] @ replicate 53 0 @ [0x10, 0x04, 0, 0, 0, 0, 0, 0], 1)]))"
    by code_simp
  from chunk_boundary_independence[OF example_md_impl example_md_blockwise example_new_buffer
      example_output, of "[replicate 70 0x61, replicate 60 0x62]"]
    example_md_impl example_md_blockwise example_new_buffer example_output a b
  show ?thesis by blast
qed

text \<open>
  C2 (conservation of input). For any sequence of \<^verbatim>\<open>update\<close> calls on a fresh engine followed by
  \<^verbatim>\<open>final\<close>, the byte ranges passed to \<^verbatim>\<open>MD::compress_n\<close>, concatenated in the order of the calls,
  are the concatenation of the inputs followed by the padding (the marker byte, zeros and
  the 8-byte bit count): every byte once, in order. Every call passes whole blocks, and the
  total length is a multiple of \<open>block_bytes\<close>.
\<close>

theorem input_conservation:
  assumes "md_hash_implementation md" and "output_bytes md \<le> length out"
  shows "\<exists>e' digest calls k.
           hash_chunks md (new_MerkleDamgard_Hash md) chunks out =
             Some (Returned (e', digest, calls)) \<and>
           concat (map fst calls) =
             concat chunks @ final_byte md # replicate k 0 @
             store_bit_count md (of_nat (length (concat chunks)) * 8) \<and>
           whole_blocks md calls \<and>
           block_bytes md dvd length (concat (map fst calls))"
proof -
  from hash_chunks_returns[OF assms(1) new_buffer[OF assms(1)] assms(2), of chunks]
  obtain e1 cu out' where
    h0: "update_chunks md (new_MerkleDamgard_Hash md) chunks = Some (e1, cu)" and
    h: "concat (map fst cu) @ m_buffer e1 = m_buffer (new_MerkleDamgard_Hash md) @ concat chunks"
      "whole_blocks md cu" "length (m_buffer e1) < block_bytes md"
      "m_count e1 = m_count (new_MerkleDamgard_Hash md) + of_nat (length (concat chunks))"
      "hash_chunks md (new_MerkleDamgard_Hash md) chunks out =
         Some (Returned (new_MerkleDamgard_Hash md, out',
                         cu @ final_blocks md (m_buffer e1) (m_count e1)))"
    by blast
  from h(1) have data: "concat (map fst cu) @ m_buffer e1 = concat chunks"
    by (simp add: new_MerkleDamgard_Hash_def clear_def clear_buffer_def)
  from h(4) have cnt: "m_count e1 = of_nat (length (concat chunks))"
    by (simp add: new_MerkleDamgard_Hash_def clear_def)
  from final_blocks_data[OF assms(1) h(3), of "m_count e1"] obtain k where
    k: "concat (map fst (final_blocks md (m_buffer e1) (m_count e1))) =
          m_buffer e1 @ final_byte md # replicate k 0 @ store_bit_count md (m_count e1 * 8)"
    by blast
  have w: "whole_blocks md (cu @ final_blocks md (m_buffer e1) (m_count e1))"
    using h(2) final_blocks_whole[OF assms(1) h(3)] by (simp add: whole_blocks_append)
  have "concat (map fst (cu @ final_blocks md (m_buffer e1) (m_count e1))) =
          (concat (map fst cu) @ m_buffer e1) @ final_byte md # replicate k 0 @
          store_bit_count md (m_count e1 * 8)"
    using k by simp
  then have "concat (map fst (cu @ final_blocks md (m_buffer e1) (m_count e1))) =
          concat chunks @ final_byte md # replicate k 0 @
          store_bit_count md (of_nat (length (concat chunks)) * 8)"
    by (simp only: data cnt)
  with h(5) w whole_blocks_dvd[OF w] show ?thesis by blast
qed

theorem input_conservation_witness:
  "md_hash_implementation example_md \<and>
   output_bytes example_md \<le> length (replicate 16 (0::byte)) \<and>
   (\<exists>e' digest calls k.
      hash_chunks example_md (new_MerkleDamgard_Hash example_md) [[0x61], [0x62, 0x63]]
        (replicate 16 0) = Some (Returned (e', digest, calls)) \<and>
      concat (map fst calls) =
        concat [[0x61], [0x62, 0x63]] @ final_byte example_md # replicate k 0 @
        store_bit_count example_md (of_nat (length (concat [[0x61], [0x62, 0x63 :: byte]])) * 8) \<and>
      whole_blocks example_md calls \<and>
      block_bytes example_md dvd length (concat (map fst calls)))"
  using input_conservation[OF example_md_impl example_output, of "[[0x61], [0x62, 0x63]]"]
    example_md_impl example_output
  by blast

text \<open>
  C3 (counter field). For a message of \<open>L\<close> bytes absorbed by a fresh engine, in any chunks,
  the last call of \<^verbatim>\<open>MD::compress_n\<close> made by \<^verbatim>\<open>final\<close> passes one block whose last 8 bytes are the
  64-bit value \<open>L * 8 mod 2^64\<close> in the byte order of \<open>byte_endianness\<close>: read as a number,
  least significant byte first for \<open>Little\<close> and last for \<open>Big\<close>, they give \<open>L * 8 mod 2^64\<close>.
  The field is 8 bytes wide whatever \<open>ctr_bytes\<close> is, and a bit count beyond 64 bits wraps.
\<close>

theorem counter_field:
  assumes "md_hash_implementation md" and "output_bytes md \<le> length out"
  shows "\<exists>e' digest calls blk.
           hash_chunks md (new_MerkleDamgard_Hash md) chunks out =
             Some (Returned (e', digest, calls)) \<and>
           calls \<noteq> [] \<and> last calls = (blk, 1) \<and> length blk = block_bytes md \<and>
           length (drop (block_bytes md - 8) blk) = 8 \<and>
           drop (block_bytes md - 8) blk =
             store_bit_count md (of_nat (length (concat chunks) * 8)) \<and>
           horner_sum unat 256
             (if byte_endianness md = Big then rev (drop (block_bytes md - 8) blk)
              else drop (block_bytes md - 8) blk)
             = (length (concat chunks) * 8) mod 2 ^ 64"
proof -
  define L where "L = length (concat chunks)"
  from hash_chunks_returns[OF assms(1) new_buffer[OF assms(1)] assms(2), of chunks]
  obtain e1 cu out' where
    h0: "update_chunks md (new_MerkleDamgard_Hash md) chunks = Some (e1, cu)" and
    h: "length (m_buffer e1) < block_bytes md"
      "m_count e1 = m_count (new_MerkleDamgard_Hash md) + of_nat (length (concat chunks))"
      "hash_chunks md (new_MerkleDamgard_Hash md) chunks out =
         Some (Returned (new_MerkleDamgard_Hash md, out',
                         cu @ final_blocks md (m_buffer e1) (m_count e1)))"
    by blast
  from h(2) have "m_count e1 = of_nat L"
    by (simp add: new_MerkleDamgard_Hash_def clear_def L_def)
  then have cnt: "m_count e1 * 8 = of_nat (L * 8)" by simp
  from last_final_blocks[OF assms(1) h(1), of "m_count e1"] obtain pre where
    l: "last (final_blocks md (m_buffer e1) (m_count e1)) =
          (pre @ store_bit_count md (m_count e1 * 8), 1)"
      "length pre = block_bytes md - 8" "8 \<le> block_bytes md"
    by blast
  define blk where "blk = pre @ store_bit_count md (of_nat (L * 8))"
  have last: "last (cu @ final_blocks md (m_buffer e1) (m_count e1)) = (blk, 1)"
    using l(1) cnt by (simp add: final_blocks_nonempty blk_def)
  have lb: "length blk = block_bytes md"
    using l(2,3) by (simp add: blk_def length_store_bit_count)
  have dr: "drop (block_bytes md - 8) blk = store_bit_count md (of_nat (L * 8))"
    using l(2) by (simp add: blk_def)
  have val: "horner_sum unat 256
             (if byte_endianness md = Big then rev (drop (block_bytes md - 8) blk)
              else drop (block_bytes md - 8) blk) = (L * 8) mod 2 ^ 64"
  proof -
    have "unat (of_nat (L * 8) :: 64 word) = (L * 8) mod 2 ^ LENGTH(64)"
      by (rule unat_of_nat)
    then have "unat (of_nat (L * 8) :: 64 word) = (L * 8) mod 2 ^ 64" by simp
    then show ?thesis
      by (simp only: dr horner_store_bit_count)
  qed
  have ne: "cu @ final_blocks md (m_buffer e1) (m_count e1) \<noteq> []"
    by (simp add: final_blocks_nonempty)
  have l8: "length (drop (block_bytes md - 8) blk) = 8"
    by (simp only: dr length_store_bit_count)
  from h(3) ne last lb l8 dr val show ?thesis
    unfolding L_def by blast
qed

theorem counter_field_witness:
  "md_hash_implementation example_md \<and>
   output_bytes example_md \<le> length (replicate 16 (0::byte)) \<and>
   (\<exists>e' digest calls blk.
      hash_chunks example_md (new_MerkleDamgard_Hash example_md) [[0x61], [0x62, 0x63]]
        (replicate 16 0) = Some (Returned (e', digest, calls)) \<and>
      calls \<noteq> [] \<and> last calls = (blk, 1) \<and> length blk = block_bytes example_md \<and>
      length (drop (block_bytes example_md - 8) blk) = 8 \<and>
      drop (block_bytes example_md - 8) blk =
        store_bit_count example_md (of_nat (length (concat [[0x61], [0x62, 0x63 :: byte]]) * 8)) \<and>
      horner_sum unat 256
        (if byte_endianness example_md = Big then rev (drop (block_bytes example_md - 8) blk)
         else drop (block_bytes example_md - 8) blk)
        = (length (concat [[0x61], [0x62, 0x63 :: byte]]) * 8) mod 2 ^ 64)"
  using counter_field[OF example_md_impl example_output, of "[[0x61], [0x62, 0x63]]"]
    example_md_impl example_output
  by blast

text \<open>
  C4 (two-phase padding). The specification has the block that is compressed first, when
  the length field does not fit, hold only the marker byte and zero padding. It does not:
  that block starts with the buffered input bytes (at least \<open>block_bytes - ctr_bytes\<close> of
  them in this case). After an \<^verbatim>\<open>update\<close> with 60 bytes the first block compressed by \<^verbatim>\<open>final\<close>
  holds the 60 bytes, the marker and three zeros, and not every byte of it is the marker
  or zero.
\<close>

theorem two_phase_padding_counterexample:
  "update example_md (new_MerkleDamgard_Hash example_md) (replicate 60 0x61) =
     Some (example_engine_60, []) \<and>
   block_bytes example_md - length (m_buffer example_engine_60 @ [final_byte example_md])
     < ctr_bytes example_md \<and>
   snd (snd (state_of (final example_md example_engine_60 []))) =
     [(replicate 60 0x61 @ [0x80] @ replicate 3 0, 1),
      (replicate 56 0 @ [0xE0, 0x01, 0, 0, 0, 0, 0, 0], 1)] \<and>
   \<not> set (replicate 60 (0x61::byte) @ [0x80] @ replicate 3 0) \<subseteq> {final_byte example_md, 0}"
proof -
  have s: "store_le (480 :: 64 word) = [0xE0, 0x01, 0, 0, 0, 0, 0, 0]"
    by (simp add: store_le_def upt_conv_Cons)
  have "snd (snd (state_of (final example_md example_engine_60 []))) =
     [(replicate 60 0x61 @ [0x80] @ replicate 3 0, 1),
      (replicate 56 0 @ [0xE0, 0x01, 0, 0, 0, 0, 0, 0], 1)]"
  proof -
    have "final_blocks example_md (m_buffer example_engine_60) (m_count example_engine_60) =
     [(replicate 60 0x61 @ [0x80] @ replicate 3 0, 1),
      (replicate 56 0 @ [0xE0, 0x01, 0, 0, 0, 0, 0, 0], 1)]"
      by (simp add: final_blocks_def example_engine_60_def example_md_def final_byte_def
          store_bit_count_def s)
    with final_calls[OF example_md_impl example_engine_60_buffer, of "[]"]
    show ?thesis by (simp only:)
  qed
  moreover have "block_bytes example_md -
      length (m_buffer example_engine_60 @ [final_byte example_md]) < ctr_bytes example_md"
    by (simp add: example_engine_60_def example_md_def)
  moreover have "\<not> set (replicate 60 (0x61::byte) @ [0x80] @ replicate 3 0)
                    \<subseteq> {final_byte example_md, 0}"
    by (simp add: final_byte_def example_md_def)
  ultimately show ?thesis using example_update_60 by blast
qed

text \<open>
  C4, amended. With \<open>b\<close> the buffered data followed by the marker byte: when fewer than
  \<open>ctr_bytes\<close> bytes remain until block alignment, \<^verbatim>\<open>final\<close> compresses exactly two blocks,
  first \<open>b\<close> filled up with zeros (the buffered data, the marker and zero padding, no length
  field) and then a fresh block of zeros that ends with the 8-byte length field; otherwise
  it compresses exactly one block, \<open>b\<close> filled up with zeros and ending with the length
  field.
\<close>

theorem two_phase_padding:
  assumes "md_hash_implementation md" and "length (m_buffer e) < block_bytes md"
  shows "snd (snd (state_of (final md e out))) =
           (let b = m_buffer e @ [final_byte md];
                field = store_bit_count md (m_count e * 8)
            in if block_bytes md - length b < ctr_bytes md then
                 [(b @ replicate (block_bytes md - length b) 0, 1),
                  (replicate (block_bytes md - 8) 0 @ field, 1)]
               else [(b @ replicate (block_bytes md - length b - 8) 0 @ field, 1)])"
  using final_calls[OF assms, of out] by (simp add: final_blocks_def)

theorem two_phase_padding_witness:
  "md_hash_implementation example_md \<and>
   length (m_buffer example_engine) < block_bytes example_md \<and>
   snd (snd (state_of (final example_md example_engine []))) =
     [([0x61, 0x62, 0x63, 0x80] @ replicate 52 0 @ [0x18, 0, 0, 0, 0, 0, 0, 0], 1)] \<and>
   length (m_buffer example_engine_60) < block_bytes example_md \<and>
   snd (snd (state_of (final example_md example_engine_60 []))) =
     [(replicate 60 0x61 @ [0x80] @ replicate 3 0, 1),
      (replicate 56 0 @ [0xE0, 0x01, 0, 0, 0, 0, 0, 0], 1)]"
proof -
  have s: "store_le (24 :: 64 word) = [0x18, 0, 0, 0, 0, 0, 0, 0]"
    "store_le (480 :: 64 word) = [0xE0, 0x01, 0, 0, 0, 0, 0, 0]"
    by (simp_all add: store_le_def upt_conv_Cons)
  from two_phase_padding[OF example_md_impl example_engine_buffer, of "[]"]
    two_phase_padding[OF example_md_impl example_engine_60_buffer, of "[]"]
  show ?thesis
    using example_md_impl example_engine_buffer example_engine_60_buffer
    by (simp add: example_engine_def example_engine_60_def example_md_def final_byte_def
        store_bit_count_def s)
qed

text \<open>
  C5 (padding marker byte). \<^verbatim>\<open>final\<close> starts with \<^verbatim>\<open>append_padding_bit\<close>, which appends exactly one
  byte to the buffered data: \<open>0x80\<close> when \<open>bit_endianness\<close> is \<open>Big\<close> and \<open>0x01\<close> when it is
  \<open>Little\<close>. The bytes that \<^verbatim>\<open>final\<close> then hands to \<^verbatim>\<open>MD::compress_n\<close> start with the buffered
  data followed by that byte.
\<close>

theorem padding_marker_byte:
  assumes "md_hash_implementation md" and "length (m_buffer e) < block_bytes md"
  shows "append_padding_bit md e =
           Returned (e\<lparr>m_buffer := m_buffer e @ [if bit_endianness md = Big then 0x80 else 0x01]\<rparr>) \<and>
         take (length (m_buffer e) + 1) (concat (map fst (snd (snd (state_of (final md e out))))))
           = m_buffer e @ [if bit_endianness md = Big then 0x80 else 0x01]"
proof -
  from final_blocks_data[OF assms, of "m_count e"] obtain k where
    "concat (map fst (final_blocks md (m_buffer e) (m_count e))) =
       m_buffer e @ final_byte md # replicate k 0 @ store_bit_count md (m_count e * 8)" by blast
  then show ?thesis
    using append_padding_bit_returns[OF assms(2)] final_calls[OF assms, of out]
    by (simp add: final_byte_def)
qed

theorem padding_marker_byte_witness:
  "md_hash_implementation example_md \<and>
   length (m_buffer example_engine) < block_bytes example_md \<and>
   append_padding_bit example_md example_engine =
     Returned (example_engine\<lparr>m_buffer := [0x61, 0x62, 0x63, 0x80]\<rparr>) \<and>
   take 4 (concat (map fst (snd (snd (state_of (final example_md example_engine []))))))
     = [0x61, 0x62, 0x63, 0x80]"
proof -
  have m: "m_buffer example_engine @ [if bit_endianness example_md = Big then 0x80 else 0x01]
             = [0x61, 0x62, 0x63, 0x80]"
    "length (m_buffer example_engine) + 1 = 4"
    by (simp_all add: example_engine_def example_md_def)
  from padding_marker_byte[OF example_md_impl example_engine_buffer, of "[]", unfolded m]
  show ?thesis
    using example_md_impl example_engine_buffer by blast
qed

text \<open>
  C6 (reuse after final). When \<^verbatim>\<open>final\<close> returns, the engine (digest state, alignment buffer,
  byte counter) is that of a freshly constructed instance, so hashing any further message on
  it gives what a new instance gives.
\<close>

theorem reuse_after_final:
  assumes "final md e out = Returned (e', out', calls)"
  shows "e' = new_MerkleDamgard_Hash md \<and>
         m_digest e' = init md \<and> m_buffer e' = [] \<and> m_count e' = 0 \<and>
         hash_chunks md e' chunks out2 = hash_chunks md (new_MerkleDamgard_Hash md) chunks out2"
  using final_returned_state[OF assms]
  by (simp add: new_MerkleDamgard_Hash_def clear_def clear_buffer_def)

theorem reuse_after_final_witness:
  "final example_md example_engine (replicate 16 0) =
     Returned (new_MerkleDamgard_Hash example_md,
               [255, 43, 52, 47, 135, 244, 188, 123, 252, 77, 251, 95, 116, 133, 114, 19],
               [([0x61, 0x62, 0x63, 0x80] @ replicate 52 0 @ [0x18, 0, 0, 0, 0, 0, 0, 0], 1)]) \<and>
   m_digest (new_MerkleDamgard_Hash example_md) = init example_md \<and>
   m_buffer (new_MerkleDamgard_Hash example_md) = [] \<and>
   m_count (new_MerkleDamgard_Hash example_md) = 0"
proof -
  have r: "final example_md example_engine (replicate 16 0) =
     Returned (new_MerkleDamgard_Hash example_md,
               [255, 43, 52, 47, 135, 244, 188, 123, 252, 77, 251, 95, 116, 133, 114, 19],
               [([0x61, 0x62, 0x63, 0x80] @ replicate 52 0 @ [0x18, 0, 0, 0, 0, 0, 0, 0], 1)])"
    by code_simp
  from reuse_after_final[OF r, of "[]" "[]"] r show ?thesis by simp
qed

text \<open>
  C7 (clear). From any state \<^verbatim>\<open>clear\<close> yields the state of a fresh instance: the digest state
  is the initial constant of the algorithm, the alignment buffer is empty and the byte
  counter is zero. Hashing a message after \<^verbatim>\<open>clear\<close> returns the digest that a fresh instance
  returns for that message.
\<close>

theorem clear_semantics:
  assumes "md_hash_implementation md" and "output_bytes md \<le> length out"
  shows "clear md e = new_MerkleDamgard_Hash md \<and>
         m_digest (clear md e) = init md \<and> m_buffer (clear md e) = [] \<and>
         m_count (clear md e) = 0 \<and>
         (\<exists>e' digest calls.
            hash_chunks md (clear md e) chunks out = Some (Returned (e', digest, calls)) \<and>
            hash_chunks md (new_MerkleDamgard_Hash md) chunks out =
              Some (Returned (e', digest, calls)))"
proof -
  have c: "clear md e = new_MerkleDamgard_Hash md"
    by (simp add: new_MerkleDamgard_Hash_def clear_def clear_buffer_def)
  from hash_chunks_returns[OF assms(1) new_buffer[OF assms(1)] assms(2), of chunks]
  obtain e' digest calls where
    "hash_chunks md (new_MerkleDamgard_Hash md) chunks out = Some (Returned (e', digest, calls))"
    by blast
  moreover have "m_digest (clear md e) = init md" "m_buffer (clear md e) = []"
    "m_count (clear md e) = 0"
    by (simp_all add: clear_def clear_buffer_def)
  ultimately show ?thesis using c by auto
qed

theorem clear_semantics_witness:
  "md_hash_implementation example_md \<and>
   output_bytes example_md \<le> length (replicate 16 (0::byte)) \<and>
   clear example_md example_engine = new_MerkleDamgard_Hash example_md \<and>
   m_digest (clear example_md example_engine) = init example_md \<and>
   m_buffer (clear example_md example_engine) = [] \<and>
   m_count (clear example_md example_engine) = 0 \<and>
   (\<exists>e' digest calls.
      hash_chunks example_md (clear example_md example_engine) [[0x61], [0x62, 0x63]]
        (replicate 16 0) = Some (Returned (e', digest, calls)) \<and>
      hash_chunks example_md (new_MerkleDamgard_Hash example_md) [[0x61], [0x62, 0x63]]
        (replicate 16 0) = Some (Returned (e', digest, calls)))"
  using clear_semantics[OF example_md_impl example_output, of example_engine
      "[[0x61], [0x62, 0x63]]"]
    example_md_impl example_output
  by blast

text \<open>
  C8 (output buffer contract). When the output buffer is shorter than \<open>output_bytes\<close>, \<^verbatim>\<open>final\<close>
  fails with the assertion of \<^verbatim>\<open>copy_output\<close> and the output buffer is as the caller passed it:
  no byte of it is written. Otherwise \<^verbatim>\<open>final\<close> returns and exactly the first \<open>output_bytes\<close>
  bytes of the output buffer are overwritten, with the first \<open>output_bytes\<close> bytes of the
  digest state after the last compression, each word serialized per \<open>byte_endianness\<close>.
\<close>

theorem output_buffer_contract:
  assumes "md_hash_implementation md" and "length (m_buffer e) < block_bytes md"
    and "digest_holds_output md"
  shows "if length out < output_bytes md then
           \<exists>e' calls. final md e out =
             Thrown (Internal_Error ''output.size() >= MD::output_bytes'') (e', out, calls)
         else
           \<exists>calls written.
             final md e out =
               Returned (new_MerkleDamgard_Hash md, written @ drop (output_bytes md) out, calls) \<and>
             length written = output_bytes md \<and>
             written = take (output_bytes md)
                         (concat (map (if byte_endianness md = Big then store_be else store_le)
                                      (compress_calls md (m_digest e) calls)))"
proof (cases "length out < output_bytes md")
  case True
  then show ?thesis
    by (simp add: final_run[OF assms(1,2)] copy_output_def)
next
  case False
  from final_blocks_digest[OF assms(1,2,3), of "m_digest e" "m_count e"]
  have "output_bytes md \<le> length (concat (map store_le
           (compress_calls md (m_digest e) (final_blocks md (m_buffer e) (m_count e)))))"
    "output_bytes md \<le> length (concat (map store_be
           (compress_calls md (m_digest e) (final_blocks md (m_buffer e) (m_count e)))))"
    by (simp_all add: length_concat_store)
  with False show ?thesis
    by (simp add: final_run[OF assms(1,2)] copy_output_def copy_out_vec_be_def
        copy_out_vec_le_def span_store_def min_def)
qed

theorem output_buffer_contract_witness:
  "md_hash_implementation example_md \<and>
   length (m_buffer example_engine) < block_bytes example_md \<and>
   digest_holds_output example_md \<and>
   (\<exists>e' calls. final example_md example_engine [7, 7, 7] =
      Thrown (Internal_Error ''output.size() >= MD::output_bytes'') (e', [7, 7, 7], calls)) \<and>
   (\<exists>calls written.
      final example_md example_engine (replicate 20 7) =
        Returned (new_MerkleDamgard_Hash example_md, written @ replicate 4 7, calls) \<and>
      length written = 16 \<and>
      written = take 16 (concat (map store_le (compress_calls example_md
                  (m_digest example_engine) calls))))"
proof -
  have c: "output_bytes example_md = 16" "byte_endianness example_md = Little"
    by (simp_all add: example_md_def)
  have d: "drop 16 (replicate 20 (7::byte)) = replicate 4 7" by simp
  from output_buffer_contract[OF example_md_impl example_engine_buffer example_md_digest,
      of "[7, 7, 7]"]
  have small: "\<exists>e' calls. final example_md example_engine [7, 7, 7] =
      Thrown (Internal_Error ''output.size() >= MD::output_bytes'') (e', [7, 7, 7], calls)"
    by (simp add: c)
  from output_buffer_contract[OF example_md_impl example_engine_buffer example_md_digest,
      of "replicate 20 7"]
  have large: "\<exists>calls written.
      final example_md example_engine (replicate 20 7) =
        Returned (new_MerkleDamgard_Hash example_md, written @ replicate 4 7, calls) \<and>
      length written = 16 \<and>
      written = take 16 (concat (map store_le (compress_calls example_md
                  (m_digest example_engine) calls)))"
    by (simp add: c)
  from small large example_md_impl example_engine_buffer example_md_digest
  show ?thesis by blast
qed

text \<open>
  C9 (buffer not full at finalization). In every engine state reached from construction by
  any sequence of \<^verbatim>\<open>update\<close>, \<^verbatim>\<open>clear\<close> and completed \<^verbatim>\<open>final\<close> calls, the alignment buffer holds
  strictly fewer than \<open>block_bytes\<close> bytes, so it is not ready to consume and the assertion
  at the start of \<^verbatim>\<open>append_padding_bit\<close> does not fail.
\<close>

theorem buffer_never_full:
  assumes "md_hash_implementation md"
    and "run md (new_MerkleDamgard_Hash md) cs = Some e"
  shows "length (m_buffer e) < block_bytes md \<and>
         \<not> ready_to_consume (block_bytes md) (m_buffer e) \<and>
         (\<exists>e1. append_padding_bit md e = Returned e1)"
  using run_buffer[OF assms(1) new_buffer[OF assms(1)] assms(2)] append_padding_bit_returns[of e md]
  by (simp add: ready_to_consume_def)

theorem buffer_never_full_witness:
  "md_hash_implementation example_md \<and>
   run example_md (new_MerkleDamgard_Hash example_md) [Update [0x61, 0x62, 0x63]] =
     Some example_engine \<and>
   length (m_buffer example_engine) < block_bytes example_md \<and>
   \<not> ready_to_consume (block_bytes example_md) (m_buffer example_engine) \<and>
   (\<exists>e1. append_padding_bit example_md example_engine = Returned e1)"
  using buffer_never_full[OF example_md_impl example_run] example_md_impl example_run
  by simp

text \<open>
  C10 (empty update). In every engine state, \<^verbatim>\<open>update\<close> with an empty input returns the engine
  as it was (digest state, alignment buffer and byte counter) and makes no call of
  \<^verbatim>\<open>MD::compress_n\<close>.
\<close>

theorem update_empty_noop: "update md e [] = Some (e, [])"
  by (simp add: update_def update_loop.simps)

theorem update_empty_noop_witness:
  "update example_md example_engine [] = Some (example_engine, [])"
  using update_empty_noop[of example_md example_engine] .

end
